theory Spec2Isabelle
  imports Main "HOL-Library.Word"
begin

unbundle bit_operations_syntax

section \<open>The mount package: file nodes and read handles\<close>

text \<open>
  A shallow embedding of \<^verbatim>\<open>cmd/mount/file.go\<close> and \<^verbatim>\<open>cmd/mount/read.go\<close>.
  Every method becomes a function that takes the receiver and the world and returns its
  Go result together with the updated receiver and world. The mutexes are left out: each
  method of a handle runs under the handle's lock, so it is modelled as one atomic step.
  Logging (\<^verbatim>\<open>fs.Debugf\<close>, \<^verbatim>\<open>fs.Errorf\<close>) has no effect on any result and is left out.
\<close>

subsection \<open>Errors\<close>

type_synonym byte = "8 word"

text \<open>\<^verbatim>\<open>fs.HashType\<close> is a Go \<^verbatim>\<open>int\<close>.\<close>

type_synonym HashType = int

text \<open>
  Go's \<^verbatim>\<open>error\<close> values, as far as these two files build or compare them:
  \<^item> \<open>errClosedFileHandle\<close>: the package's sentinel for a closed handle;
  \<^item> \<open>EOF\<close>, \<open>ErrUnexpectedEOF\<close>: the sentinels of package \<^verbatim>\<open>io\<close>;
  \<^item> \<open>ENOENT\<close>: \<^verbatim>\<open>fuse.ENOENT\<close>;
  \<^item> \<open>errWriterFailed\<close>: \<^verbatim>\<open>errors.New("can't open file - writer failed")\<close>;
  \<^item> \<open>errReadWrite\<close>: \<^verbatim>\<open>errors.New("can't open for read and write simultaneously")\<close>;
  \<^item> \<open>errFlags fl\<close>: \<^verbatim>\<open>errors.Errorf("can't figure out how to open with flags %v", fl)\<close>;
  \<^item> \<open>errCorrupted t dst src\<close>:
    \<^verbatim>\<open>errors.Errorf("corrupted on transfer: %v hash differ %q vs %q", t, dst, src)\<close>;
  \<^item> \<open>Wrap e msg\<close>: \<^verbatim>\<open>errors.Wrap(e, msg)\<close> for a non-nil \<open>e\<close>;
  \<^item> \<open>Backend msg\<close>: any other error that the backend or the stream returns.
  A Go result \<^verbatim>\<open>error\<close> is an \<open>error option\<close>, \<open>None\<close> standing for \<^verbatim>\<open>nil\<close>.
\<close>

datatype error =
    errClosedFileHandle
  | EOF
  | ErrUnexpectedEOF
  | ENOENT
  | errWriterFailed
  | errReadWrite
  | errFlags "32 word"
  | errCorrupted HashType string string
  | Wrap error string
  | Backend string

subsection \<open>The collaborators: object, stream, hasher, configuration\<close>

text \<open>
  \<^verbatim>\<open>fs.Object\<close>, as far as it is queried: \<^verbatim>\<open>Remote()\<close>, \<^verbatim>\<open>Size()\<close>, \<^verbatim>\<open>Hash(t)\<close> and
  \<^verbatim>\<open>Fs().Hashes()\<close>. Opening the object is an effect and belongs to the world below.
\<close>

record Object =
  Remote :: string
  Size :: int
  Hash :: "HashType \<Rightarrow> error + string"
  FsHashes :: "HashType list"

text \<open>
  The stream that an \<^verbatim>\<open>Open\<close> of the object returns. \<open>ident\<close> tells one stream from
  another; \<open>isSeeker\<close> says whether its dynamic type implements \<^verbatim>\<open>io.Seeker\<close>. The
  handle's field \<^verbatim>\<open>r\<close> is an \<^verbatim>\<open>*fs.Account\<close> around the stream; \<^verbatim>\<open>GetReader\<close> and
  \<^verbatim>\<open>UpdateReader\<close> read and replace the wrapped stream, so the model keeps the stream
  itself in that field.
\<close>

datatype reader = Reader (ident: nat) (isSeeker: bool)

text \<open>The calls that leave the package, in the order they are made.\<close>

datatype event =
    StopBuffering
  | SeekerSeek reader int
  | ReaderClose reader
  | ObjectOpen "int option"
  | ReadFullCall reader nat
  | HashWrite "byte list"
  | Transferring string
  | DoneTransferring string

text \<open>
  The world: the \<open>trace\<close> of calls made so far, the milliseconds slept so far
  (\<open>now\<close>), and what each fallible call answers. An answer is a function of the whole
  trace up to and including the call that asks, so any behaviour of the backend over a
  run (a failure at the third reopen, a short stream after a seek) is one world.
  \<^item> \<open>onOpen\<close>: \<^verbatim>\<open>o.Open(...)\<close>, a stream or an error;
  \<^item> \<open>onSeek\<close>: \<^verbatim>\<open>Seek(offset, 0)\<close> of a seekable stream;
  \<^item> \<open>onClose\<close>: \<^verbatim>\<open>Close()\<close> of a stream;
  \<^item> \<open>onRead\<close>: the bytes the stream can still deliver to one \<^verbatim>\<open>io.ReadFull\<close>, and
    the error with which it then stops;
  \<^item> \<open>onHashWrite\<close>: \<^verbatim>\<open>Write\<close> of the hash accumulator.
\<close>

record world =
  trace :: "event list"
  now :: nat
  onOpen :: "event list \<Rightarrow> error + reader"
  onSeek :: "event list \<Rightarrow> error option"
  onClose :: "event list \<Rightarrow> error option"
  onRead :: "event list \<Rightarrow> byte list \<times> error"
  onHashWrite :: "event list \<Rightarrow> error option"

definition emit :: "event \<Rightarrow> world \<Rightarrow> world" where
  "emit e w = w\<lparr>trace := trace w @ [e]\<rparr>"

text \<open>
  \<^verbatim>\<open>fs.MultiHasher\<close>: the hash types it computes and the bytes written to it so far.
  Go ranges over the map of \<^verbatim>\<open>Sums()\<close> in an unspecified order; the order of \<open>types\<close>
  stands for that order.
\<close>

record MultiHasher =
  types :: "HashType list"
  written :: "byte list"

text \<open>\<^verbatim>\<open>newCreateInfo(f, remote)\<close>, kept as the pair of its arguments.\<close>

datatype createInfo = newCreateInfo string string

record Dir =
  dirFs :: string
  dirPath :: string

text \<open>
  \<^verbatim>\<open>File\<close>: the fields \<^verbatim>\<open>size\<close>, \<^verbatim>\<open>d\<close>, \<^verbatim>\<open>o\<close> (\<open>None\<close> for \<^verbatim>\<open>nil\<close>) and
  \<^verbatim>\<open>writers\<close>.
\<close>

record File =
  f_size :: int
  f_d :: Dir
  f_o :: "Object option"
  f_writers :: int

text \<open>
  \<^verbatim>\<open>WriteFileHandle\<close> is declared in \<^verbatim>\<open>write.go\<close>; here it is the record of what
  it was constructed against.
\<close>

record WriteFileHandle =
  w_remote :: string
  w_dir :: Dir
  w_file :: File

text \<open>
  The package's flags (\<open>noChecksum\<close>, \<open>noSeek\<close>), \<^verbatim>\<open>fs.Config.LowLevelRetries\<close>
  (a Go \<^verbatim>\<open>int\<close>), and the functions of other files that the two files call and that
  are taken as parameters: \<^verbatim>\<open>fs.HashEquals\<close>, the digest that \<^verbatim>\<open>Sums()\<close> reports
  for a hash type over the bytes written, \<^verbatim>\<open>fs.NewMultiHasherTypes\<close> and
  \<^verbatim>\<open>newWriteFileHandle\<close>.
\<close>

record env =
  noChecksum :: bool
  noSeek :: bool
  LowLevelRetries :: int
  HashEquals :: "string \<Rightarrow> string \<Rightarrow> bool"
  digest :: "HashType \<Rightarrow> byte list \<Rightarrow> string"
  NewMultiHasherTypes :: "HashType list \<Rightarrow> error + MultiHasher"
  newWriteFileHandle :: "Dir \<Rightarrow> File \<Rightarrow> createInfo \<Rightarrow> error + WriteFileHandle"

definition Sums :: "env \<Rightarrow> MultiHasher \<Rightarrow> (HashType \<times> string) list" where
  "Sums env h = map (\<lambda>t. (t, digest env t (written h))) (types h)"

subsection \<open>ReadFileHandle\<close>

text \<open>
  The struct of \<^verbatim>\<open>read.go\<close>; \<open>reader\<close> is the field \<^verbatim>\<open>r\<close> and \<open>object\<close> the field
  \<^verbatim>\<open>o\<close>. \<open>offset\<close> is an \<^verbatim>\<open>int64\<close>.
\<close>

record ReadFileHandle =
  closed :: bool
  reader :: reader
  object :: Object
  readCalled :: bool
  offset :: int
  hash :: "MultiHasher option"

text \<open>Two's-complement wrap-around of an \<^verbatim>\<open>int64\<close> sum.\<close>

definition int64 :: "int \<Rightarrow> int" where
  "int64 x = (x + 2 ^ 63) mod 2 ^ 64 - 2 ^ 63"

definition newReadFileHandle ::
  "env \<Rightarrow> Object \<Rightarrow> world \<Rightarrow> (error + ReadFileHandle) \<times> world" where
  "newReadFileHandle env ob w =
     (let w1 = emit (ObjectOpen None) w in
      case onOpen w1 (trace w1) of
        Inl e \<Rightarrow> (Inl e, w1)
      | Inr rd \<Rightarrow>
          let h = (if \<not> noChecksum env
                   then (case NewMultiHasherTypes env (FsHashes ob) of
                           Inl e \<Rightarrow> None
                         | Inr mh \<Rightarrow> Some mh)
                   else None);
              fh = \<lparr>closed = False, reader = rd, object = ob, readCalled = False,
                    offset = 0, hash = h\<rparr>
          in (Inr fh, emit (Transferring (Remote ob)) w1))"

text \<open>
  \<^verbatim>\<open>seek(offset, reopen)\<close>. The error of closing the old stream is logged and dropped,
  so \<open>onClose\<close> is not asked.
\<close>

definition seek ::
  "int \<Rightarrow> bool \<Rightarrow> ReadFileHandle \<Rightarrow> world \<Rightarrow> error option \<times> ReadFileHandle \<times> world" where
  "seek off reopen fh w =
     (let w0 = emit StopBuffering w;
          fh0 = fh\<lparr>hash := None\<rparr>;
          oldReader = reader fh0
      in if \<not> reopen \<and> isSeeker oldReader then
           (let w1 = emit (SeekerSeek oldReader off) w0 in
            case onSeek w1 (trace w1) of
              Some e \<Rightarrow> (Some e, fh0, w1)
            | None \<Rightarrow> (None, fh0\<lparr>reader := oldReader, offset := off\<rparr>, w1))
         else
           (let w1 = emit (ReaderClose oldReader) w0;
                w2 = emit (ObjectOpen (Some off)) w1 in
            case onOpen w2 (trace w2) of
              Inl e \<Rightarrow> (Some e, fh0, w2)
            | Inr rd \<Rightarrow> (None, fh0\<lparr>reader := rd, offset := off\<rparr>, w2)))"

text \<open>
  \<^verbatim>\<open>io.ReadFull(fh.r, buf)\<close> with \<^verbatim>\<open>len(buf) = len\<close>, by the contract of the Go
  library: with an empty buffer the stream is not asked; otherwise the buffer is filled
  and the error is nil, or fewer bytes are copied and the error is the stream's, an
  \<^verbatim>\<open>EOF\<close> after some bytes becoming \<^verbatim>\<open>ErrUnexpectedEOF\<close>.
\<close>

definition ReadFull ::
  "reader \<Rightarrow> nat \<Rightarrow> world \<Rightarrow> (byte list \<times> error option) \<times> world" where
  "ReadFull rd len w =
     (if len = 0 then (([], None), w)
      else
        (let w1 = emit (ReadFullCall rd len) w in
         case onRead w1 (trace w1) of
           (avail, e) \<Rightarrow>
             if len \<le> length avail then ((take len avail, None), w1)
             else ((avail, Some (if avail \<noteq> [] \<and> e = EOF then ErrUnexpectedEOF else e)),
                   w1)))"

record ReadRequest =
  Offset :: int
  ReqSize :: nat

record ReadResponse =
  Data :: "byte list"

text \<open>
  One pass through the body of the loop of \<^verbatim>\<open>Read\<close>, up to the test of the retry
  count: \<open>ReturnEOF\<close> is the \<^verbatim>\<open>return nil\<close> inside the loop, \<open>Done data newOffset\<close> a
  \<^verbatim>\<open>break\<close> with a nil error (\<open>data\<close> is \<^verbatim>\<open>buf[:n]\<close>), \<open>Failed e\<close> falling
  through to the retry test with the error \<open>e\<close>.
\<close>

datatype pass = ReturnEOF | Done "byte list" int | Failed error

definition attempt ::
  "ReadRequest \<Rightarrow> bool \<Rightarrow> bool \<Rightarrow> ReadFileHandle \<Rightarrow> world \<Rightarrow> pass \<times> ReadFileHandle \<times> world" where
  "attempt req doSeek doReopen fh w =
     (if doSeek \<and> Offset req \<ge> Size (object fh) then (ReturnEOF, fh, w)
      else
        (case (if doSeek then seek (Offset req) doReopen fh w else (None, fh, w)) of
           (Some e, fh1, w1) \<Rightarrow> (Failed e, fh1, w1)
         | (None, fh1, w1) \<Rightarrow>
             (let fh2 = (if ReqSize req > 0 then fh1\<lparr>readCalled := True\<rparr> else fh1) in
              case ReadFull (reader fh2) (ReqSize req) w1 of
                ((data, err), w2) \<Rightarrow>
                  (let newOffset = int64 (offset fh2 + int (length data)) in
                   case err of
                     None \<Rightarrow> (Done data newOffset, fh2, w2)
                   | Some e \<Rightarrow>
                       if (e = ErrUnexpectedEOF \<or> e = EOF) \<and> newOffset = Size (object fh2)
                       then (Done data newOffset, fh2, w2)
                       else (Failed e, fh2, w2)))))"

text \<open>
  The loop of \<^verbatim>\<open>Read\<close>. \<open>Stopped e\<close> is the \<^verbatim>\<open>break\<close> after the retries are used
  up. The locals \<^verbatim>\<open>n\<close>, \<^verbatim>\<open>newOffset\<close> and \<^verbatim>\<open>buf\<close> are read after the loop only when
  the error is nil, that is after the pass that set them, so they travel in \<open>Done\<close>.
\<close>

datatype loopExit = Returned | Broke "byte list" int | Stopped error

function readLoop ::
  "env \<Rightarrow> ReadRequest \<Rightarrow> bool \<Rightarrow> bool \<Rightarrow> int \<Rightarrow> ReadFileHandle \<Rightarrow> world
     \<Rightarrow> loopExit \<times> ReadFileHandle \<times> world" where
  "readLoop env req doSeek doReopen retries fh w =
     (case attempt req doSeek doReopen fh w of
        (ReturnEOF, fh1, w1) \<Rightarrow> (Returned, fh1, w1)
      | (Done data newOffset, fh1, w1) \<Rightarrow> (Broke data newOffset, fh1, w1)
      | (Failed e, fh1, w1) \<Rightarrow>
          if retries \<ge> LowLevelRetries env then (Stopped e, fh1, w1)
          else readLoop env req True True (retries + 1) fh1 w1)"
  by pat_completeness auto
termination
  by (relation "measure (\<lambda>(env, req, doSeek, doReopen, retries, fh, w).
        nat (LowLevelRetries env - retries))") auto

declare readLoop.simps [simp del]

text \<open>
  \<^verbatim>\<open>Read\<close>. \<^verbatim>\<open>req.Size\<close> is the kernel's unsigned count, so the buffer length is a
  natural number. The response is returned as the caller finds it afterwards.
\<close>

definition Read ::
  "env \<Rightarrow> ReadRequest \<Rightarrow> ReadResponse \<Rightarrow> ReadFileHandle \<Rightarrow> world
     \<Rightarrow> error option \<times> ReadResponse \<times> ReadFileHandle \<times> world" where
  "Read env req resp fh w =
     (if closed fh then (Some errClosedFileHandle, resp, fh, w)
      else
        (case readLoop env req (Offset req \<noteq> offset fh) False 0 fh w of
           (Returned, fh1, w1) \<Rightarrow> (None, resp\<lparr>Data := []\<rparr>, fh1, w1)
         | (Stopped e, fh1, w1) \<Rightarrow> (Some e, resp, fh1, w1)
         | (Broke data newOffset, fh1, w1) \<Rightarrow>
             (let resp1 = resp\<lparr>Data := data\<rparr>;
                  fh2 = fh1\<lparr>offset := newOffset\<rparr>
              in case hash fh2 of
                   None \<Rightarrow> (None, resp1, fh2, w1)
                 | Some h \<Rightarrow>
                     (let w2 = emit (HashWrite data) w1 in
                      case onHashWrite w2 (trace w2) of
                        Some e \<Rightarrow> (Some e, resp1, fh2, w2)
                      | None \<Rightarrow>
                          (None, resp1,
                           fh2\<lparr>hash := Some (h\<lparr>written := written h @ data\<rparr>)\<rparr>, w2)))))"

text \<open>The loop of \<^verbatim>\<open>checkHash\<close> over \<^verbatim>\<open>fh.hash.Sums()\<close>.\<close>

fun checkSums :: "env \<Rightarrow> Object \<Rightarrow> (HashType \<times> string) list \<Rightarrow> error option" where
  "checkSums env ob [] = None"
| "checkSums env ob ((hashType, dstSum) # rest) =
     (case Hash ob hashType of
        Inl e \<Rightarrow> Some e
      | Inr srcSum \<Rightarrow>
          if \<not> HashEquals env dstSum srcSum
          then Some (errCorrupted hashType dstSum srcSum)
          else checkSums env ob rest)"

definition checkHash :: "env \<Rightarrow> ReadFileHandle \<Rightarrow> error option" where
  "checkHash env fh =
     (case hash fh of
        None \<Rightarrow> None
      | Some h \<Rightarrow>
          if \<not> readCalled fh \<or> offset fh < Size (object fh) then None
          else checkSums env (object fh) (Sums env h))"

definition close ::
  "env \<Rightarrow> ReadFileHandle \<Rightarrow> world \<Rightarrow> error option \<times> ReadFileHandle \<times> world" where
  "close env fh w =
     (if closed fh then (Some errClosedFileHandle, fh, w)
      else
        (let fh1 = fh\<lparr>closed := True\<rparr>;
             w1 = emit (DoneTransferring (Remote (object fh1))) w
         in case checkHash env fh1 of
              Some e \<Rightarrow> (Some e, fh1, w1)
            | None \<Rightarrow>
                (let w2 = emit (ReaderClose (reader fh1)) w1
                 in (onClose w2 (trace w2), fh1, w2))))"

definition Flush ::
  "env \<Rightarrow> ReadFileHandle \<Rightarrow> world \<Rightarrow> error option \<times> ReadFileHandle \<times> world" where
  "Flush env fh w =
     (case checkHash env fh of
        Some e \<Rightarrow> (Some e, fh, w)
      | None \<Rightarrow> (None, fh, w))"

definition Release ::
  "env \<Rightarrow> ReadFileHandle \<Rightarrow> world \<Rightarrow> error option \<times> ReadFileHandle \<times> world" where
  "Release env fh w =
     (if closed fh then (None, fh, w)
      else close env fh w)"

subsection \<open>File\<close>

text \<open>
  \<^verbatim>\<open>waitForValidObject\<close> reads \<^verbatim>\<open>f.o\<close> and \<^verbatim>\<open>f.writers\<close> under the node's lock
  once per round, and other goroutines may change the node between two rounds. The
  node is therefore given as a function of the time slept so far: \<open>f t\<close> is the node
  as a round finds it after \<open>t\<close> milliseconds. \<^verbatim>\<open>time.Sleep(100 * time.Millisecond)\<close>
  adds 100 to \<open>now\<close>. \<open>waitLoop f i w\<close> is the loop from the round with counter \<open>i\<close> on.
\<close>

function waitLoop :: "(nat \<Rightarrow> File) \<Rightarrow> nat \<Rightarrow> world \<Rightarrow> (error + Object) \<times> world" where
  "waitLoop f i w =
     (if i < 50 then
        (case f_o (f (now w)) of
           Some ob \<Rightarrow> (Inr ob, w)
         | None \<Rightarrow>
             if f_writers (f (now w)) = 0 then (Inl errWriterFailed, w)
             else waitLoop f (i + 1) (w\<lparr>now := now w + 100\<rparr>))
      else (Inl ENOENT, w))"
  by pat_completeness auto
termination
  by (relation "measure (\<lambda>(f, i, w). 50 - i)") auto

declare waitLoop.simps [simp del]

definition waitForValidObject :: "(nat \<Rightarrow> File) \<Rightarrow> world \<Rightarrow> (error + Object) \<times> world" where
  "waitForValidObject f w = waitLoop f 0 w"

text \<open>
  \<^verbatim>\<open>fuse.OpenFlags\<close> and \<^verbatim>\<open>fuse.OpenResponseFlags\<close> are \<^verbatim>\<open>uint32\<close>. The constants are
  those of the fuse library on Linux (\<^verbatim>\<open>O_RDONLY\<close>, \<^verbatim>\<open>O_WRONLY\<close>, \<^verbatim>\<open>O_RDWR\<close>,
  \<^verbatim>\<open>O_ACCMODE\<close>, \<^verbatim>\<open>O_TRUNC\<close>), and its own \<^verbatim>\<open>OpenNonSeekable = 1 << 2\<close>.
\<close>

definition OpenReadOnly :: "32 word" where "OpenReadOnly = 0"
definition OpenWriteOnly :: "32 word" where "OpenWriteOnly = 1"
definition OpenReadWrite :: "32 word" where "OpenReadWrite = 2"
definition OpenAccessModeMask :: "32 word" where "OpenAccessModeMask = 3"
definition OpenTruncate :: "32 word" where "OpenTruncate = 0x200"
definition OpenNonSeekable :: "32 word" where "OpenNonSeekable = 4"

definition IsReadOnly :: "32 word \<Rightarrow> bool" where
  "IsReadOnly fl = (fl AND OpenAccessModeMask = OpenReadOnly)"

definition IsWriteOnly :: "32 word \<Rightarrow> bool" where
  "IsWriteOnly fl = (fl AND OpenAccessModeMask = OpenWriteOnly)"

definition IsReadWrite :: "32 word \<Rightarrow> bool" where
  "IsReadWrite fl = (fl AND OpenAccessModeMask = OpenReadWrite)"

record OpenRequest =
  Flags :: "32 word"

record OpenResponse =
  RespFlags :: "32 word"

datatype Handle = ReadHandle ReadFileHandle | WriteHandle WriteFileHandle

text \<open>
  \<^verbatim>\<open>Open\<close>. \<^verbatim>\<open>errors.Wrap(nil, msg)\<close> is nil, so a handle that was constructed is
  returned as it is. The node that \<^verbatim>\<open>newWriteFileHandle\<close> receives is the node as it
  is when the wait returns.
\<close>

definition Open ::
  "env \<Rightarrow> (nat \<Rightarrow> File) \<Rightarrow> OpenRequest \<Rightarrow> OpenResponse \<Rightarrow> world
     \<Rightarrow> (error + Handle) \<times> OpenResponse \<times> world" where
  "Open env f req resp w =
     (case waitForValidObject f w of
        (Inl e, w1) \<Rightarrow> (Inl e, resp, w1)
      | (Inr ob, w1) \<Rightarrow>
          if IsReadOnly (Flags req) then
            (let resp1 = (if noSeek env
                          then resp\<lparr>RespFlags := RespFlags resp OR OpenNonSeekable\<rparr>
                          else resp)
             in case newReadFileHandle env ob w1 of
                  (Inl e, w2) \<Rightarrow> (Inl (Wrap e ''open for read''), resp1, w2)
                | (Inr fh, w2) \<Rightarrow> (Inr (ReadHandle fh), resp1, w2))
          else if IsWriteOnly (Flags req)
                  \<or> (IsReadWrite (Flags req) \<and> Flags req AND OpenTruncate \<noteq> 0) then
            (let resp1 = resp\<lparr>RespFlags := RespFlags resp OR OpenNonSeekable\<rparr>;
                 node = f (now w1);
                 src = newCreateInfo (dirFs (f_d node)) (Remote ob)
             in case newWriteFileHandle env (f_d node) node src of
                  Inl e \<Rightarrow> (Inl (Wrap e ''open for write''), resp1, w1)
                | Inr fh \<Rightarrow> (Inr (WriteHandle fh), resp1, w1))
          else if IsReadWrite (Flags req) then (Inl errReadWrite, resp, w1)
          else (Inl (errFlags (Flags req)), resp, w1))"

subsection \<open>Concrete objects, handles and worlds\<close>

text \<open>
  A ten-byte object, a configuration with two low-level retries, a world in which every
  call succeeds and the stream is at its end, a handle at a given offset whose stream is
  seekable and whose hash accumulator is active, and a node.
\<close>

definition exObject :: Object where
  "exObject = \<lparr>Remote = ''a.txt'', Size = 10, Hash = (\<lambda>t. Inr ''aa''), FsHashes = [1]\<rparr>"

definition exEnv :: env where
  "exEnv = \<lparr>noChecksum = False, noSeek = False, LowLevelRetries = 2,
            HashEquals = (\<lambda>a b. a = b), digest = (\<lambda>t bs. ''aa''),
            NewMultiHasherTypes = (\<lambda>ts. Inr \<lparr>types = ts, written = []\<rparr>),
            newWriteFileHandle = (\<lambda>d f src. case src of newCreateInfo fs remote \<Rightarrow>
               Inr \<lparr>w_remote = remote, w_dir = d, w_file = f\<rparr>)\<rparr>"

definition exWorld :: world where
  "exWorld = \<lparr>trace = [], now = 0,
              onOpen = (\<lambda>tr. Inr (Reader (length tr) False)),
              onSeek = (\<lambda>tr. None), onClose = (\<lambda>tr. None),
              onRead = (\<lambda>tr. ([], EOF)), onHashWrite = (\<lambda>tr. None)\<rparr>"

definition exHandle :: "int \<Rightarrow> ReadFileHandle" where
  "exHandle off = \<lparr>closed = False, reader = Reader 0 True, object = exObject,
                   readCalled = False, offset = off,
                   hash = Some \<lparr>types = [1], written = []\<rparr>\<rparr>"

definition exNode :: "Object option \<Rightarrow> int \<Rightarrow> File" where
  "exNode ob n = \<lparr>f_size = 0, f_d = \<lparr>dirFs = ''remote:'', dirPath = ''dir''\<rparr>, f_o = ob,
                  f_writers = n\<rparr>"

text \<open>
  An object whose backend cannot report the hash of type 1 and reports \<open>''bb''\<close> for
  type 2, and a handle that has read an object to its end (offset 10) with an accumulator
  for the hash types 1 and 2.
\<close>

definition exBadHashObject :: Object where
  "exBadHashObject = \<lparr>Remote = ''a.txt'', Size = 10,
      Hash = (\<lambda>t. if t = 1 then Inl (Backend ''hash unavailable'') else Inr ''bb''),
      FsHashes = [1, 2]\<rparr>"

definition exReadHandle :: "Object \<Rightarrow> ReadFileHandle" where
  "exReadHandle ob = \<lparr>closed = False, reader = Reader 0 False, object = ob,
                   readCalled = True, offset = 10,
                   hash = Some \<lparr>types = [1, 2], written = []\<rparr>\<rparr>"

text \<open>
  Worlds whose stream delivers four bytes and ends; whose stream times out until the
  ninth call of the run and then delivers four bytes; whose stream always fails, with
  an error that tells early failures from late ones; and whose stream delivers ten
  bytes. A configuration whose digest of delivered bytes differs from the backend's.
\<close>

definition exShortWorld :: world where
  "exShortWorld = exWorld\<lparr>onRead := (\<lambda>tr. ([1, 2, 3, 4], EOF))\<rparr>"

definition exFlakyWorld :: world where
  "exFlakyWorld = exWorld\<lparr>onRead := (\<lambda>tr. if length tr < 9 then ([], Backend ''timeout'')
                                             else ([1, 2, 3, 4], EOF))\<rparr>"

definition exDownWorld :: world where
  "exDownWorld = exWorld\<lparr>onRead := (\<lambda>tr. ([], Backend (if length tr < 9 then ''early'' else ''late'')))\<rparr>"

definition exHashWorld :: world where
  "exHashWorld = exWorld\<lparr>onRead := (\<lambda>tr. ([7, 7, 7, 7, 7, 7, 7, 7, 7, 7], EOF))\<rparr>"

definition exCorruptEnv :: env where
  "exCorruptEnv = exEnv\<lparr>digest := (\<lambda>t bs. if bs = [] then ''aa'' else ''cc'')\<rparr>"

lemmas run_defs = attempt_def seek_def ReadFull_def emit_def int64_def Let_def
  exHandle_def exObject_def exWorld_def exEnv_def

subsection \<open>Predicates used to state the properties\<close>


text \<open>
  \<open>failing req n doSeek doReopen fh w = Some (es, fh', w')\<close>: starting from the handle
  \<open>fh\<close> and the world \<open>w\<close>, \<open>n\<close> passes through the loop body in a row fail; \<open>es\<close> are
  their errors in order and \<open>fh'\<close>, \<open>w'\<close> the handle and the world they leave. The
  first pass runs with the given flags, every later one as the loop runs a retry.
\<close>

fun failing ::
  "ReadRequest \<Rightarrow> nat \<Rightarrow> bool \<Rightarrow> bool \<Rightarrow> ReadFileHandle \<Rightarrow> world
     \<Rightarrow> (error list \<times> ReadFileHandle \<times> world) option" where
  "failing req 0 doSeek doReopen fh w = Some ([], fh, w)"
| "failing req (Suc n) doSeek doReopen fh w =
     (case attempt req doSeek doReopen fh w of
        (ReturnEOF, fh1, w1) \<Rightarrow> None
      | (Done data newOffset, fh1, w1) \<Rightarrow> None
      | (Failed e, fh1, w1) \<Rightarrow>
          (case failing req n True True fh1 w1 of
             None \<Rightarrow> None
           | Some (es, fh2, w2) \<Rightarrow> Some (e # es, fh2, w2)))"

text \<open>
  The operations on a read handle (the three methods the kernel calls, and the
  internal seek), run one after the other with their results dropped.
\<close>

datatype operation = DoRead ReadRequest ReadResponse | DoFlush | DoRelease | DoSeek int bool

fun perform :: "env \<Rightarrow> operation \<Rightarrow> ReadFileHandle \<times> world \<Rightarrow> ReadFileHandle \<times> world" where
  "perform env (DoRead req resp) (fh, w) = snd (snd (Read env req resp fh w))"
| "perform env DoFlush (fh, w) = snd (Flush env fh w)"
| "perform env DoRelease (fh, w) = snd (Release env fh w)"
| "perform env (DoSeek off reopen) (fh, w) = snd (seek off reopen fh w)"

fun performAll ::
  "env \<Rightarrow> operation list \<Rightarrow> ReadFileHandle \<times> world \<Rightarrow> ReadFileHandle \<times> world" where
  "performAll env [] s = s"
| "performAll env (x # xs) s = performAll env xs (perform env x s)"

section \<open>Properties of the read handle\<close>

subsection \<open>Reading at or beyond the end\<close>

lemma attempt_beyond:
  "Offset req \<ge> Size (object fh) \<Longrightarrow> attempt req True doReopen fh w = (ReturnEOF, fh, w)"
  by (simp add: attempt_def)

text \<open>
  C1, as the code has it: on an open handle, a Read whose requested offset is at or
  beyond the object's size and differs from the handle's current offset returns a
  successful empty result and leaves the handle and the world as they were: the offset is
  unchanged and the stream is neither read nor reopened. The test of the size stands
  under \<^verbatim>\<open>if doSeek\<close>, so a request at the handle's own offset is not covered by it.
\<close>

theorem Read_beyond_end:
  assumes "\<not> closed fh" and "Offset req \<ge> Size (object fh)" and "Offset req \<noteq> offset fh"
  shows "Read env req resp fh w = (None, resp\<lparr>Data := []\<rparr>, fh, w)"
  using assms
  by (simp add: Read_def readLoop.simps[of env req True] attempt_beyond)

theorem Read_beyond_end_witness:
  "Read exEnv \<lparr>Offset = 12, ReqSize = 4\<rparr> \<lparr>Data = [1, 2]\<rparr> (exHandle 3) exWorld
     = (None, \<lparr>Data = []\<rparr>, exHandle 3, exWorld)"
  using Read_beyond_end [of "exHandle 3" "\<lparr>Offset = 12, ReqSize = 4\<rparr>" exEnv
      "\<lparr>Data = [1, 2]\<rparr>" exWorld]
  by (simp add: exHandle_def exObject_def)

text \<open>
  C1 as stated fails when the requested offset equals the handle's offset: with the
  handle at offset 10 of the ten-byte object, a Read of 4 bytes at offset 10 calls
  \<^verbatim>\<open>io.ReadFull\<close> on the stream (and sets \<^verbatim>\<open>readCalled\<close>).
\<close>

theorem Read_at_end_counterexample:
  "\<not> closed (exHandle 10)
   \<and> Offset \<lparr>Offset = 10, ReqSize = 4\<rparr> \<ge> Size (object (exHandle 10))
   \<and> Read exEnv \<lparr>Offset = 10, ReqSize = 4\<rparr> \<lparr>Data = []\<rparr> (exHandle 10) exWorld
     = (None, \<lparr>Data = []\<rparr>, (exHandle 10)\<lparr>readCalled := True\<rparr>,
        exWorld\<lparr>trace := [ReadFullCall (Reader 0 True) 4, HashWrite []]\<rparr>)"
  by (simp add: Read_def readLoop.simps attempt_def ReadFull_def emit_def int64_def
       exHandle_def exObject_def exWorld_def exEnv_def Let_def)

subsection \<open>Seeking\<close>

text \<open>
  C5: for every call of \<^verbatim>\<open>seek\<close> to a target offset, the hash accumulator is nil
  afterwards; when the stream is an \<^verbatim>\<open>io.Seeker\<close> and a reopen is not forced, the only
  calls are \<^verbatim>\<open>StopBuffering\<close> and one \<^verbatim>\<open>Seek\<close> of the stream (no close, no reopen) and
  the stream stays; otherwise the old stream is closed and the object is opened exactly
  once, at the target offset; the result is the result of that strategy, and the
  handle's offset is the target when it succeeded and unchanged when it failed.
\<close>

theorem seek_strategy:
  assumes "seek off reopen fh w = (err, fh', w')"
  shows "hash fh' = None
       \<and> trace w' = trace w @
           (if \<not> reopen \<and> isSeeker (reader fh)
            then [StopBuffering, SeekerSeek (reader fh) off]
            else [StopBuffering, ReaderClose (reader fh), ObjectOpen (Some off)])
       \<and> err = (if \<not> reopen \<and> isSeeker (reader fh) then onSeek w (trace w')
                else (case onOpen w (trace w') of Inl e \<Rightarrow> Some e | Inr rd \<Rightarrow> None))
       \<and> offset fh' = (if err = None then off else offset fh)
       \<and> reader fh' = (if \<not> reopen \<and> isSeeker (reader fh) then reader fh
                else (case onOpen w (trace w') of Inl e \<Rightarrow> reader fh | Inr rd \<Rightarrow> rd))"
  using assms
  by (auto simp: seek_def emit_def Let_def split: option.splits sum.splits if_splits)

theorem seek_strategy_witness:
  "seek 7 False (exHandle 3) exWorld
     = (None, (exHandle 7)\<lparr>hash := None\<rparr>,
        exWorld\<lparr>trace := [StopBuffering, SeekerSeek (Reader 0 True) 7]\<rparr>)
   \<and> hash ((exHandle 7)\<lparr>hash := None\<rparr>) = None
   \<and> offset ((exHandle 7)\<lparr>hash := None\<rparr>) = 7
   \<and> seek 7 True (exHandle 3) exWorld
     = (None, (exHandle 7)\<lparr>reader := Reader 3 False, hash := None\<rparr>,
        exWorld\<lparr>trace := [StopBuffering, ReaderClose (Reader 0 True), ObjectOpen (Some 7)]\<rparr>)
   \<and> seek 7 True (exHandle 3) (exWorld\<lparr>onOpen := (\<lambda>tr. Inl (Backend ''gone''))\<rparr>)
     = (Some (Backend ''gone''), (exHandle 3)\<lparr>hash := None\<rparr>,
        exWorld\<lparr>onOpen := (\<lambda>tr. Inl (Backend ''gone'')),
                trace := [StopBuffering, ReaderClose (Reader 0 True), ObjectOpen (Some 7)]\<rparr>)
   \<and> offset ((exHandle 3)\<lparr>hash := None\<rparr>) = 3"
proof -
  have run: "seek 7 False (exHandle 3) exWorld
     = (None, (exHandle 7)\<lparr>hash := None\<rparr>,
        exWorld\<lparr>trace := [StopBuffering, SeekerSeek (Reader 0 True) 7]\<rparr>)"
    by (simp add: seek_def emit_def exHandle_def exWorld_def Let_def)
  have run2: "seek 7 True (exHandle 3) exWorld
     = (None, (exHandle 7)\<lparr>reader := Reader 3 False, hash := None\<rparr>,
        exWorld\<lparr>trace := [StopBuffering, ReaderClose (Reader 0 True), ObjectOpen (Some 7)]\<rparr>)"
    by (simp add: seek_def emit_def exHandle_def exWorld_def Let_def)
  have run3: "seek 7 True (exHandle 3) (exWorld\<lparr>onOpen := (\<lambda>tr. Inl (Backend ''gone''))\<rparr>)
     = (Some (Backend ''gone''), (exHandle 3)\<lparr>hash := None\<rparr>,
        exWorld\<lparr>onOpen := (\<lambda>tr. Inl (Backend ''gone'')),
                trace := [StopBuffering, ReaderClose (Reader 0 True), ObjectOpen (Some 7)]\<rparr>)"
    by (simp add: seek_def emit_def exHandle_def exWorld_def Let_def)
  from seek_strategy [OF run] seek_strategy [OF run2] seek_strategy [OF run3]
  show ?thesis using run run2 run3 by (simp add: exHandle_def)
qed

subsection \<open>A handle that has been closed\<close>

text \<open>
  C9, as the code has it: on a handle that has been closed, a Read returns
  \<^verbatim>\<open>errClosedFileHandle\<close>, and so does the internal \<^verbatim>\<open>close\<close>; a second Release
  finds nothing to do and returns nil, changing nothing; Flush does not look at the
  flag and returns what \<^verbatim>\<open>checkHash\<close> returns.
\<close>

theorem closed_handle:
  assumes "closed fh"
  shows "Read env req resp fh w = (Some errClosedFileHandle, resp, fh, w)
       \<and> close env fh w = (Some errClosedFileHandle, fh, w)
       \<and> Release env fh w = (None, fh, w)
       \<and> Flush env fh w = (checkHash env fh, fh, w)"
  using assms
  by (simp add: Read_def close_def Release_def Flush_def split: option.splits)

theorem closed_handle_witness:
  "Read exEnv \<lparr>Offset = 0, ReqSize = 4\<rparr> \<lparr>Data = []\<rparr> ((exHandle 0)\<lparr>closed := True\<rparr>) exWorld
     = (Some errClosedFileHandle, \<lparr>Data = []\<rparr>, (exHandle 0)\<lparr>closed := True\<rparr>, exWorld)
   \<and> Release exEnv ((exHandle 0)\<lparr>closed := True\<rparr>) exWorld
     = (None, (exHandle 0)\<lparr>closed := True\<rparr>, exWorld)"
  using closed_handle [of "(exHandle 0)\<lparr>closed := True\<rparr>" exEnv
      "\<lparr>Offset = 0, ReqSize = 4\<rparr>" "\<lparr>Data = []\<rparr>" exWorld]
  by (simp add: exHandle_def)

text \<open>
  C9 as stated fails for Release and for Flush: the first Release of an open handle
  closes it and returns nil; a second Release and a Flush of the closed handle return
  nil as well, not the already-closed error.
\<close>

theorem closed_handle_counterexample:
  "Release exEnv (exHandle 0) exWorld
     = (None, (exHandle 0)\<lparr>closed := True\<rparr>,
        exWorld\<lparr>trace := [DoneTransferring ''a.txt'', ReaderClose (Reader 0 True)]\<rparr>)
   \<and> closed ((exHandle 0)\<lparr>closed := True\<rparr>)
   \<and> Release exEnv ((exHandle 0)\<lparr>closed := True\<rparr>)
        (exWorld\<lparr>trace := [DoneTransferring ''a.txt'', ReaderClose (Reader 0 True)]\<rparr>)
     = (None, (exHandle 0)\<lparr>closed := True\<rparr>,
        exWorld\<lparr>trace := [DoneTransferring ''a.txt'', ReaderClose (Reader 0 True)]\<rparr>)
   \<and> Flush exEnv ((exHandle 0)\<lparr>closed := True\<rparr>)
        (exWorld\<lparr>trace := [DoneTransferring ''a.txt'', ReaderClose (Reader 0 True)]\<rparr>)
     = (None, (exHandle 0)\<lparr>closed := True\<rparr>,
        exWorld\<lparr>trace := [DoneTransferring ''a.txt'', ReaderClose (Reader 0 True)]\<rparr>)"
  by (simp add: Release_def close_def Flush_def checkHash_def emit_def
       exHandle_def exObject_def exWorld_def Let_def)

subsection \<open>Verification of the hashes\<close>

lemma checkSums_agreeing_prefix:
  "\<forall>(t', d') \<in> set pre. \<exists>s. Hash ob t' = Inr s \<and> HashEquals env d' s
     \<Longrightarrow> checkSums env ob (pre @ rest) = checkSums env ob rest"
  by (induction pre) auto

lemma checkSums_some_disagreement:
  "\<forall>(t, d) \<in> set xs. \<exists>s. Hash ob t = Inr s
     \<Longrightarrow> \<exists>(t, d) \<in> set xs. \<exists>s. Hash ob t = Inr s \<and> \<not> HashEquals env d s
     \<Longrightarrow> \<exists>t d s. checkSums env ob xs = Some (errCorrupted t d s) \<and> (t, d) \<in> set xs
               \<and> Hash ob t = Inr s \<and> \<not> HashEquals env d s"
proof (induction xs)
  case Nil
  then show ?case by simp
next
  case (Cons x xs)
  obtain t d where x: "x = (t, d)" by (cases x)
  from Cons.prems(1) x obtain s where s: "Hash ob t = Inr s" by auto
  show ?case
  proof (cases "HashEquals env d s")
    case False
    with s x show ?thesis by auto
  next
    case True
    with Cons.prems(2) s x
    have "\<exists>(t, d) \<in> set xs. \<exists>s. Hash ob t = Inr s \<and> \<not> HashEquals env d s" by auto
    with Cons.IH Cons.prems(1)
    obtain t' d' s' where "checkSums env ob xs = Some (errCorrupted t' d' s')"
      "(t', d') \<in> set xs" "Hash ob t' = Inr s'" "\<not> HashEquals env d' s'" by auto
    with True s x show ?thesis by auto
  qed
qed

text \<open>
  C4, as the code has it: \<^verbatim>\<open>checkHash\<close> returns nil without comparing anything when
  the accumulator is nil (hashing disabled), no read has occurred, or the offset is short
  of the object's size. Otherwise it goes through the computed digests in the order of
  \<^verbatim>\<open>Sums()\<close> and stops at the first hash type whose backend query fails or whose
  digests disagree: a disagreement there gives the corruption error naming that hash
  type, the computed digest and the backend's digest; a failed query gives the query's
  own error. So when every backend query succeeds, any disagreement makes it return a
  corruption error naming a disagreeing hash type and both of its digests.
\<close>

theorem checkHash_verdict:
  "(hash fh = None \<or> \<not> readCalled fh \<or> offset fh < Size (object fh)
      \<longrightarrow> checkHash env fh = None)
   \<and> (hash fh = Some h \<and> readCalled fh \<and> Size (object fh) \<le> offset fh
        \<and> Sums env h = pre @ (t, dst) # post
        \<and> (\<forall>(t', d') \<in> set pre. \<exists>s. Hash (object fh) t' = Inr s \<and> HashEquals env d' s)
      \<longrightarrow> (Hash (object fh) t = Inr src \<and> \<not> HashEquals env dst src
             \<longrightarrow> checkHash env fh = Some (errCorrupted t dst src))
          \<and> (Hash (object fh) t = Inl e \<longrightarrow> checkHash env fh = Some e))
   \<and> (hash fh = Some h \<and> readCalled fh \<and> Size (object fh) \<le> offset fh
        \<and> (\<forall>(t', d') \<in> set (Sums env h). \<exists>s. Hash (object fh) t' = Inr s)
        \<and> (\<exists>(t', d') \<in> set (Sums env h). \<exists>s. Hash (object fh) t' = Inr s \<and> \<not> HashEquals env d' s)
      \<longrightarrow> (\<exists>t' d' s. checkHash env fh = Some (errCorrupted t' d' s)
             \<and> (t', d') \<in> set (Sums env h) \<and> d' = digest env t' (written h)
             \<and> Hash (object fh) t' = Inr s \<and> \<not> HashEquals env d' s))"
proof (intro conjI impI)
  assume "hash fh = None \<or> \<not> readCalled fh \<or> offset fh < Size (object fh)"
  then show "checkHash env fh = None"
    by (auto simp: checkHash_def split: option.splits)
next
  assume a: "hash fh = Some h \<and> readCalled fh \<and> Size (object fh) \<le> offset fh
        \<and> Sums env h = pre @ (t, dst) # post
        \<and> (\<forall>(t', d') \<in> set pre. \<exists>s. Hash (object fh) t' = Inr s \<and> HashEquals env d' s)"
  then have run: "checkHash env fh = checkSums env (object fh) ((t, dst) # post)"
    using checkSums_agreeing_prefix [of pre "object fh" env "(t, dst) # post"]
    by (simp add: checkHash_def)
  { assume "Hash (object fh) t = Inr src \<and> \<not> HashEquals env dst src"
    then show "checkHash env fh = Some (errCorrupted t dst src)" by (simp add: run) }
  { assume "Hash (object fh) t = Inl e"
    then show "checkHash env fh = Some e" by (simp add: run) }
next
  assume a: "hash fh = Some h \<and> readCalled fh \<and> Size (object fh) \<le> offset fh
        \<and> (\<forall>(t', d') \<in> set (Sums env h). \<exists>s. Hash (object fh) t' = Inr s)
        \<and> (\<exists>(t', d') \<in> set (Sums env h). \<exists>s. Hash (object fh) t' = Inr s \<and> \<not> HashEquals env d' s)"
  then have run: "checkHash env fh = checkSums env (object fh) (Sums env h)"
    by (simp add: checkHash_def)
  from a checkSums_some_disagreement [of "Sums env h" "object fh" env]
  obtain t' d' s where r: "checkSums env (object fh) (Sums env h) = Some (errCorrupted t' d' s)"
      "(t', d') \<in> set (Sums env h)" "Hash (object fh) t' = Inr s" "\<not> HashEquals env d' s"
    by blast
  from r(2) have "d' = digest env t' (written h)" by (auto simp: Sums_def)
  with r run show "\<exists>t' d' s. checkHash env fh = Some (errCorrupted t' d' s)
             \<and> (t', d') \<in> set (Sums env h) \<and> d' = digest env t' (written h)
             \<and> Hash (object fh) t' = Inr s \<and> \<not> HashEquals env d' s"
    by (intro exI [of _ t'] exI [of _ d'] exI [of _ s]) simp
qed

theorem checkHash_verdict_witness:
  "checkHash exEnv (exReadHandle (exObject\<lparr>Hash := (\<lambda>t. Inr ''bb'')\<rparr>))
     = Some (errCorrupted 1 ''aa'' ''bb'')
   \<and> checkHash exEnv ((exReadHandle exObject)\<lparr>offset := 4\<rparr>) = None"
proof -
  let ?fh = "exReadHandle (exObject\<lparr>Hash := (\<lambda>t. Inr ''bb'')\<rparr>)"
  have 1: "hash ?fh = Some \<lparr>types = [1, 2], written = []\<rparr> \<and> readCalled ?fh
        \<and> Size (object ?fh) \<le> offset ?fh
        \<and> Sums exEnv \<lparr>types = [1, 2], written = []\<rparr> = [] @ (1, ''aa'') # [(2, ''aa'')]
        \<and> (\<forall>(t', d') \<in> set []. \<exists>s. Hash (object ?fh) t' = Inr s \<and> HashEquals exEnv d' s)"
    by (simp add: exReadHandle_def exObject_def Sums_def exEnv_def)
  have 2: "Hash (object ?fh) 1 = Inr ''bb'' \<and> \<not> HashEquals exEnv ''aa'' ''bb''"
    by (simp add: exReadHandle_def exEnv_def)
  have 3: "offset ((exReadHandle exObject)\<lparr>offset := 4\<rparr>)
           < Size (object ((exReadHandle exObject)\<lparr>offset := 4\<rparr>))"
    by (simp add: exReadHandle_def exObject_def)
  from 1 2 checkHash_verdict [of ?fh exEnv "\<lparr>types = [1, 2], written = []\<rparr>" "[]" 1 "''aa''"
      "[(2, ''aa'')]" "''bb''"]
  have "checkHash exEnv ?fh = Some (errCorrupted 1 ''aa'' ''bb'')" by blast
  moreover from 3 checkHash_verdict [of "(exReadHandle exObject)\<lparr>offset := 4\<rparr>" exEnv]
  have "checkHash exEnv ((exReadHandle exObject)\<lparr>offset := 4\<rparr>) = None" by blast
  ultimately show ?thesis by simp
qed

text \<open>
  C4 as stated fails when a backend hash query fails before the disagreement is reached:
  the digests of hash type 2 disagree (\<open>''aa''\<close> computed, \<open>''bb''\<close> reported), but the
  query for hash type 1 fails first and its error is returned, not a corruption error.
\<close>

theorem checkHash_counterexample:
  "hash (exReadHandle exBadHashObject) = Some \<lparr>types = [1, 2], written = []\<rparr>
   \<and> readCalled (exReadHandle exBadHashObject)
   \<and> Size (object (exReadHandle exBadHashObject)) \<le> offset (exReadHandle exBadHashObject)
   \<and> (2, ''aa'') \<in> set (Sums exEnv \<lparr>types = [1, 2], written = []\<rparr>)
   \<and> Hash (object (exReadHandle exBadHashObject)) 2 = Inr ''bb''
   \<and> \<not> HashEquals exEnv ''aa'' ''bb''
   \<and> checkHash exEnv (exReadHandle exBadHashObject) = Some (Backend ''hash unavailable'')"
  by (simp add: checkHash_def Sums_def exReadHandle_def exBadHashObject_def exEnv_def)

subsection \<open>The length of a successful read\<close>

lemma int64_id: "- (2 ^ 63) \<le> x \<Longrightarrow> x < 2 ^ 63 \<Longrightarrow> int64 x = x"
  by (simp add: int64_def)

lemma ReadFull_length:
  "ReadFull rd len w = ((data, err), w1)
     \<Longrightarrow> (err = None \<longrightarrow> length data = len) \<and> (err \<noteq> None \<longrightarrow> length data < len)"
  by (auto simp: ReadFull_def Let_def split: if_splits prod.splits)

lemma seek_object:
  "seek off reopen fh w = (err, fh1, w1)
     \<Longrightarrow> object fh1 = object fh \<and> closed fh1 = closed fh \<and> (err = None \<longrightarrow> offset fh1 = off)"
  by (auto simp: seek_def Let_def split: if_splits option.splits sum.splits)

lemma attempt_object:
  "attempt req doSeek doReopen fh w = (p, fh1, w1) \<Longrightarrow> object fh1 = object fh"
  by (auto simp: attempt_def Let_def split: if_splits option.splits prod.splits dest: seek_object)

lemma attempt_Done:
  assumes "attempt req doSeek doReopen fh w = (Done data newOffset, fh1, w1)"
    and "doSeek \<or> offset fh = Offset req"
  shows "offset fh1 = Offset req
       \<and> newOffset = int64 (Offset req + int (length data))
       \<and> (length data = ReqSize req
          \<or> (length data < ReqSize req \<and> newOffset = Size (object fh)))"
  using assms
  by (auto simp: attempt_def Let_def split: if_splits option.splits prod.splits
      dest!: seek_object ReadFull_length)

lemma attempt_ReturnEOF:
  "attempt req doSeek doReopen fh w = (ReturnEOF, fh1, w1) \<Longrightarrow> Size (object fh) \<le> Offset req"
  by (auto simp: attempt_def Let_def split: if_splits option.splits prod.splits)

lemma readLoop_Broke:
  "readLoop env req doSeek doReopen retries fh w = (Broke data newOffset, fh1, w1)
     \<Longrightarrow> doSeek \<or> offset fh = Offset req
     \<Longrightarrow> offset fh1 = Offset req
       \<and> newOffset = int64 (Offset req + int (length data))
       \<and> (length data = ReqSize req
          \<or> (length data < ReqSize req \<and> newOffset = Size (object fh)))"
proof (induction env req doSeek doReopen retries fh w rule: readLoop.induct)
  case (1 env req doSeek doReopen retries fh w)
  obtain p fh2 w2 where a: "attempt req doSeek doReopen fh w = (p, fh2, w2)"
    by (cases "attempt req doSeek doReopen fh w") auto
  show ?case
  proof (cases p)
    case ReturnEOF
    with a "1.prems"(1) show ?thesis by (subst (asm) readLoop.simps) simp
  next
    case (Done d n)
    with a "1.prems"(1) have "d = data" "n = newOffset" "fh2 = fh1"
      by (subst (asm) readLoop.simps, simp)+
    with a Done "1.prems"(2) show ?thesis using attempt_Done by blast
  next
    case (Failed e)
    with a "1.prems"(1) have more: "\<not> retries \<ge> LowLevelRetries env"
      and rec: "readLoop env req True True (retries + 1) fh2 w2 = (Broke data newOffset, fh1, w1)"
      by (subst (asm) readLoop.simps, simp split: if_splits)+
    from "1.IH" [OF a [symmetric] _ _ more rec] Failed attempt_object [OF a]
    show ?thesis by auto
  qed
qed

lemma readLoop_Returned:
  "readLoop env req doSeek doReopen retries fh w = (Returned, fh1, w1)
     \<Longrightarrow> Size (object fh) \<le> Offset req"
proof (induction env req doSeek doReopen retries fh w rule: readLoop.induct)
  case (1 env req doSeek doReopen retries fh w)
  obtain p fh2 w2 where a: "attempt req doSeek doReopen fh w = (p, fh2, w2)"
    by (cases "attempt req doSeek doReopen fh w") auto
  show ?case
  proof (cases p)
    case ReturnEOF
    with a show ?thesis using attempt_ReturnEOF by blast
  next
    case (Done d n)
    with a "1.prems"(1) show ?thesis by (subst (asm) readLoop.simps) simp
  next
    case (Failed e)
    with a "1.prems"(1) have more: "\<not> retries \<ge> LowLevelRetries env"
      and rec: "readLoop env req True True (retries + 1) fh2 w2 = (Returned, fh1, w1)"
      by (subst (asm) readLoop.simps, simp split: if_splits)+
    from "1.IH" [OF a [symmetric] _ _ more rec] Failed attempt_object [OF a]
    show ?thesis by simp
  qed
qed

text \<open>
  C2: for every successful Read of an open handle whose requested offset lies inside the
  object (\<open>0 \<le> Offset < Size\<close>), the returned buffer has exactly the requested size,
  or the stream ended at the object's end while the buffer was being filled and the
  buffer has exactly \<open>Size - Offset\<close> bytes; a request that ends inside the object
  gets exactly the requested size; in every case the handle's offset afterwards is the
  requested offset plus the number of bytes returned. The offsets are \<^verbatim>\<open>int64\<close>, so
  the request is taken to end below \<open>2 ^ 63\<close>.
\<close>

theorem Read_inside_length:
  assumes ok: "Read env req resp fh w = (None, resp', fh', w')"
    and opn: "\<not> closed fh"
    and inside: "0 \<le> Offset req" "Offset req < Size (object fh)"
    and range: "Offset req + int (ReqSize req) < 2 ^ 63"
  shows "(length (Data resp') = ReqSize req
          \<or> (length (Data resp') < ReqSize req
              \<and> int (length (Data resp')) = Size (object fh) - Offset req))
       \<and> (Offset req + int (ReqSize req) \<le> Size (object fh)
            \<longrightarrow> length (Data resp') = ReqSize req)
       \<and> offset fh' = Offset req + int (length (Data resp'))"
proof -
  obtain x fh1 w1 where loop: "readLoop env req (Offset req \<noteq> offset fh) False 0 fh w = (x, fh1, w1)"
    by (cases "readLoop env req (Offset req \<noteq> offset fh) False 0 fh w") auto
  show ?thesis
  proof (cases x)
    case Returned
    with loop inside readLoop_Returned show ?thesis by fastforce
  next
    case (Stopped e)
    with loop ok opn show ?thesis by (simp add: Read_def)
  next
    case (Broke data newOffset)
    with loop ok opn have out: "Data resp' = data" "offset fh' = newOffset"
      by (auto simp: Read_def Let_def split: option.splits)
    from loop Broke readLoop_Broke [of env req "Offset req \<noteq> offset fh" False 0 fh w data newOffset fh1 w1]
    have b: "newOffset = int64 (Offset req + int (length data))"
      "length data = ReqSize req \<or> (length data < ReqSize req \<and> newOffset = Size (object fh))"
      by auto
    have "Offset req + int (length data) < 2 ^ 63" using b(2) range by auto
    with inside(1) have "int64 (Offset req + int (length data)) = Offset req + int (length data)"
      by (intro int64_id) auto
    with b out show ?thesis by auto
  qed
qed

theorem Read_inside_length_witness:
  "Read exEnv \<lparr>Offset = 6, ReqSize = 8\<rparr> \<lparr>Data = []\<rparr> (exHandle 3) exShortWorld
     = (None, \<lparr>Data = [1, 2, 3, 4]\<rparr>,
        (exHandle 10)\<lparr>readCalled := True, hash := None\<rparr>,
        exShortWorld\<lparr>trace := [StopBuffering, SeekerSeek (Reader 0 True) 6,
                                 ReadFullCall (Reader 0 True) 8]\<rparr>)
   \<and> length (Data \<lparr>Data = [1, 2, 3, 4 :: byte]\<rparr>) < ReqSize \<lparr>Offset = 6, ReqSize = 8\<rparr>
   \<and> int (length (Data \<lparr>Data = [1, 2, 3, 4 :: byte]\<rparr>))
       = Size (object (exHandle 3)) - Offset \<lparr>Offset = 6, ReqSize = 8\<rparr>
   \<and> offset ((exHandle 10)\<lparr>readCalled := True, hash := None\<rparr>)
       = Offset \<lparr>Offset = 6, ReqSize = 8\<rparr> + int (length (Data \<lparr>Data = [1, 2, 3, 4 :: byte]\<rparr>))"
proof -
  have run: "Read exEnv \<lparr>Offset = 6, ReqSize = 8\<rparr> \<lparr>Data = []\<rparr> (exHandle 3) exShortWorld
     = (None, \<lparr>Data = [1, 2, 3, 4]\<rparr>,
        (exHandle 10)\<lparr>readCalled := True, hash := None\<rparr>,
        exShortWorld\<lparr>trace := [StopBuffering, SeekerSeek (Reader 0 True) 6,
                                 ReadFullCall (Reader 0 True) 8]\<rparr>)"
    by (simp add: Read_def readLoop.simps run_defs exShortWorld_def)
  have h: "\<not> closed (exHandle 3)" "0 \<le> Offset \<lparr>Offset = 6, ReqSize = 8\<rparr>"
    "Offset \<lparr>Offset = 6, ReqSize = 8\<rparr> < Size (object (exHandle 3))"
    "Offset \<lparr>Offset = 6, ReqSize = 8\<rparr> + int (ReqSize \<lparr>Offset = 6, ReqSize = 8\<rparr>) < 2 ^ 63"
    by (simp_all add: exHandle_def exObject_def)
  from Read_inside_length [OF run h] run show ?thesis by simp
qed

subsection \<open>Retries\<close>

lemma failing_length:
  "failing req n doSeek doReopen fh w = Some (es, fh1, w1) \<Longrightarrow> length es = n"
  by (induction n arbitrary: doSeek doReopen fh w es)
     (auto split: prod.splits pass.splits option.splits)

lemma failing_Suc:
  assumes "failing req (Suc n) doSeek doReopen fh w = Some (es, fh1, w1)"
  obtains e fh' w' es' where "attempt req doSeek doReopen fh w = (Failed e, fh', w')"
    and "failing req n True True fh' w' = Some (es', fh1, w1)" and "es = e # es'"
  using assms by (auto split: prod.splits pass.splits option.splits)

lemma readLoop_Failed:
  "attempt req doSeek doReopen fh w = (Failed e, fh1, w1) \<Longrightarrow>
   readLoop env req doSeek doReopen retries fh w =
     (if retries \<ge> LowLevelRetries env then (Stopped e, fh1, w1)
      else readLoop env req True True (retries + 1) fh1 w1)"
  by (subst readLoop.simps) simp

lemma readLoop_Done:
  "attempt req doSeek doReopen fh w = (Done data newOffset, fh1, w1) \<Longrightarrow>
   readLoop env req doSeek doReopen retries fh w = (Broke data newOffset, fh1, w1)"
  by (subst readLoop.simps) simp

lemma readLoop_ReturnEOF:
  "attempt req doSeek doReopen fh w = (ReturnEOF, fh1, w1) \<Longrightarrow>
   readLoop env req doSeek doReopen retries fh w = (Returned, fh1, w1)"
  by (subst readLoop.simps) simp

lemma readLoop_after_failures:
  "failing req (Suc n) doSeek doReopen fh w = Some (es, fh1, w1)
     \<Longrightarrow> retries + int n < LowLevelRetries env
     \<Longrightarrow> readLoop env req doSeek doReopen retries fh w
           = readLoop env req True True (retries + int (Suc n)) fh1 w1"
proof (induction n arbitrary: doSeek doReopen fh w es retries)
  case 0
  from "0.prems"(1) obtain e where "attempt req doSeek doReopen fh w = (Failed e, fh1, w1)"
    by (rule failing_Suc) simp
  with "0.prems"(2) show ?case by (simp add: readLoop_Failed)
next
  case (Suc n)
  from Suc.prems(1) obtain e fh' w' es' where
    a: "attempt req doSeek doReopen fh w = (Failed e, fh', w')"
    and f: "failing req (Suc n) True True fh' w' = Some (es', fh1, w1)"
    by (rule failing_Suc)
  from Suc.prems(2) have "retries < LowLevelRetries env" by simp
  with a have "readLoop env req doSeek doReopen retries fh w
                 = readLoop env req True True (retries + 1) fh' w'"
    by (simp add: readLoop_Failed)
  also have "\<dots> = readLoop env req True True (retries + 1 + int (Suc n)) fh1 w1"
    using Suc.IH [OF f, of "retries + 1"] Suc.prems(2) by simp
  finally show ?case by (simp add: add.assoc)
qed

lemma readLoop_exhausted:
  "failing req (Suc n) doSeek doReopen fh w = Some (es, fh1, w1)
     \<Longrightarrow> n = 0 \<or> retries + int n \<le> LowLevelRetries env
     \<Longrightarrow> LowLevelRetries env \<le> retries + int n
     \<Longrightarrow> readLoop env req doSeek doReopen retries fh w = (Stopped (last es), fh1, w1)"
proof (induction n arbitrary: doSeek doReopen fh w es retries)
  case 0
  from "0.prems"(1) obtain e where "attempt req doSeek doReopen fh w = (Failed e, fh1, w1)"
    and "es = [e]"
    by (rule failing_Suc) simp
  with "0.prems"(3) show ?case by (simp add: readLoop_Failed)
next
  case (Suc n)
  from Suc.prems(1) obtain e fh' w' es' where
    a: "attempt req doSeek doReopen fh w = (Failed e, fh', w')"
    and f: "failing req (Suc n) True True fh' w' = Some (es', fh1, w1)"
    and es: "es = e # es'"
    by (rule failing_Suc)
  from failing_length [OF f] have ne: "es' \<noteq> []" by auto
  from Suc.prems(2) have "retries < LowLevelRetries env" by simp
  with a have "readLoop env req doSeek doReopen retries fh w
                 = readLoop env req True True (retries + 1) fh' w'"
    by (simp add: readLoop_Failed)
  also have "\<dots> = (Stopped (last es'), fh1, w1)"
    using Suc.prems(2,3) by (intro Suc.IH [OF f]) auto
  finally show ?case using es ne by simp
qed

lemma attempt_seek_hash:
  "attempt req True doReopen fh w = (Done data newOffset, fh1, w1) \<Longrightarrow> hash fh1 = None"
  by (auto simp: attempt_def seek_def Let_def
      split: if_splits option.splits prod.splits sum.splits)

lemma attempt_retry_trace:
  "attempt req True True fh w = (p, fh1, w1) \<Longrightarrow> Offset req < Size (object fh)
     \<Longrightarrow> \<exists>rest. trace w1 = trace w @ [StopBuffering, ReaderClose (reader fh),
                                         ObjectOpen (Some (Offset req))] @ rest"
  by (auto simp: attempt_def seek_def ReadFull_def emit_def Let_def
      split: if_splits option.splits prod.splits sum.splits)

lemma Read_Broke:
  assumes "\<not> closed fh"
    and "readLoop env req (Offset req \<noteq> offset fh) False 0 fh w = (Broke data newOffset, fh2, w2)"
    and "hash fh2 = None \<or> onHashWrite w2 (trace w2 @ [HashWrite data]) = None"
  shows "\<exists>fh' w'. Read env req resp fh w = (None, resp\<lparr>Data := data\<rparr>, fh', w')
           \<and> offset fh' = newOffset"
  using assms by (auto simp: Read_def Let_def emit_def split: option.splits)

text \<open>
  C3: on an open handle, when \<open>n\<close> passes in a row fail, \<open>n\<close> is at most the configured
  low-level retry count, and the next pass succeeds, the Read returns success: with the
  bytes of that pass and the offset after them, or with the empty result when that pass
  finds the requested offset at or beyond the size. Every pass after the first is run
  with \<^verbatim>\<open>doSeek\<close> and \<^verbatim>\<open>doReopen\<close> set, that is it seeks again and forces a reopen:
  for a requested offset inside the object such a pass begins by closing the stream
  and opening the object at the requested offset.
  When one pass more than the retry count fails (a single pass for a count below
  zero), the Read returns the error of the last pass and leaves the response alone. A
  read that was retried has no hash accumulator left; only for \<open>n = 0\<close> the success
  supposes that the accumulator, if there is one, accepts the bytes.
\<close>

theorem Read_retries:
  assumes "\<not> closed fh"
  shows "(failing req n (Offset req \<noteq> offset fh) False fh w = Some (es, fh1, w1)
          \<and> int n \<le> LowLevelRetries env
          \<and> attempt req (n \<noteq> 0 \<or> Offset req \<noteq> offset fh) (n \<noteq> 0) fh1 w1
              = (Done data newOffset, fh2, w2)
          \<and> (n = 0 \<longrightarrow> hash fh2 = None \<or> onHashWrite w2 (trace w2 @ [HashWrite data]) = None)
         \<longrightarrow> (\<exists>fh' w'. Read env req resp fh w = (None, resp\<lparr>Data := data\<rparr>, fh', w')
                \<and> offset fh' = newOffset))
       \<and> (failing req n (Offset req \<noteq> offset fh) False fh w = Some (es, fh1, w1)
          \<and> int n \<le> LowLevelRetries env
          \<and> attempt req (n \<noteq> 0 \<or> Offset req \<noteq> offset fh) (n \<noteq> 0) fh1 w1
              = (ReturnEOF, fh2, w2)
         \<longrightarrow> Read env req resp fh w = (None, resp\<lparr>Data := []\<rparr>, fh2, w2))
       \<and> (failing req (Suc (nat (LowLevelRetries env))) (Offset req \<noteq> offset fh) False fh w
              = Some (es, fh1, w1)
         \<longrightarrow> Read env req resp fh w = (Some (last es), resp, fh1, w1))
       \<and> (attempt req True True fh1 w1 = (p, fh2, w2) \<and> Offset req < Size (object fh1)
         \<longrightarrow> (\<exists>rest. trace w2 = trace w1 @ [StopBuffering, ReaderClose (reader fh1),
                                                ObjectOpen (Some (Offset req))] @ rest))"
proof (intro conjI impI)
  assume a: "failing req n (Offset req \<noteq> offset fh) False fh w = Some (es, fh1, w1)
          \<and> int n \<le> LowLevelRetries env
          \<and> attempt req (n \<noteq> 0 \<or> Offset req \<noteq> offset fh) (n \<noteq> 0) fh1 w1
              = (Done data newOffset, fh2, w2)
          \<and> (n = 0 \<longrightarrow> hash fh2 = None \<or> onHashWrite w2 (trace w2 @ [HashWrite data]) = None)"
  have loop: "readLoop env req (Offset req \<noteq> offset fh) False 0 fh w = (Broke data newOffset, fh2, w2)"
  proof (cases n)
    case 0
    with a have "fh1 = fh" "w1 = w" by simp_all
    with a 0 have "attempt req (Offset req \<noteq> offset fh) False fh w
                     = (Done data newOffset, fh2, w2)" by simp
    then show ?thesis by (rule readLoop_Done)
  next
    case (Suc m)
    with a have "readLoop env req (Offset req \<noteq> offset fh) False 0 fh w
                   = readLoop env req True True (0 + int (Suc m)) fh1 w1"
      by (intro readLoop_after_failures) auto
    with a Suc show ?thesis by (simp add: readLoop_Done)
  qed
  have "hash fh2 = None \<or> onHashWrite w2 (trace w2 @ [HashWrite data]) = None"
  proof (cases n)
    case 0
    with a show ?thesis by simp
  next
    case (Suc m)
    with a have "attempt req True True fh1 w1 = (Done data newOffset, fh2, w2)" by simp
    then show ?thesis by (simp add: attempt_seek_hash)
  qed
  with assms loop
  show "\<exists>fh' w'. Read env req resp fh w = (None, resp\<lparr>Data := data\<rparr>, fh', w')
          \<and> offset fh' = newOffset"
    by (rule Read_Broke)
next
  assume a: "failing req n (Offset req \<noteq> offset fh) False fh w = Some (es, fh1, w1)
          \<and> int n \<le> LowLevelRetries env
          \<and> attempt req (n \<noteq> 0 \<or> Offset req \<noteq> offset fh) (n \<noteq> 0) fh1 w1
              = (ReturnEOF, fh2, w2)"
  have loop: "readLoop env req (Offset req \<noteq> offset fh) False 0 fh w = (Returned, fh2, w2)"
  proof (cases n)
    case 0
    with a have "fh1 = fh" "w1 = w" by simp_all
    with a 0 have "attempt req (Offset req \<noteq> offset fh) False fh w = (ReturnEOF, fh2, w2)"
      by simp
    then show ?thesis by (rule readLoop_ReturnEOF)
  next
    case (Suc m)
    with a have "readLoop env req (Offset req \<noteq> offset fh) False 0 fh w
                   = readLoop env req True True (0 + int (Suc m)) fh1 w1"
      by (intro readLoop_after_failures) auto
    with a Suc show ?thesis by (simp add: readLoop_ReturnEOF)
  qed
  with assms show "Read env req resp fh w = (None, resp\<lparr>Data := []\<rparr>, fh2, w2)"
    by (simp add: Read_def)
next
  assume a: "failing req (Suc (nat (LowLevelRetries env))) (Offset req \<noteq> offset fh) False fh w
              = Some (es, fh1, w1)"
  have c1: "nat (LowLevelRetries env) = 0 \<or> 0 + int (nat (LowLevelRetries env)) \<le> LowLevelRetries env"
    by (cases "0 \<le> LowLevelRetries env") simp_all
  have c2: "LowLevelRetries env \<le> 0 + int (nat (LowLevelRetries env))" by simp
  have "readLoop env req (Offset req \<noteq> offset fh) False 0 fh w = (Stopped (last es), fh1, w1)"
    by (rule readLoop_exhausted [OF a c1 c2])
  with assms show "Read env req resp fh w = (Some (last es), resp, fh1, w1)"
    by (simp add: Read_def)
next
  assume "attempt req True True fh1 w1 = (p, fh2, w2) \<and> Offset req < Size (object fh1)"
  then show "\<exists>rest. trace w2 = trace w1 @ [StopBuffering, ReaderClose (reader fh1),
                                          ObjectOpen (Some (Offset req))] @ rest"
    using attempt_retry_trace by blast
qed

theorem Read_retries_witness:
  "fst (Read exEnv \<lparr>Offset = 0, ReqSize = 4\<rparr> \<lparr>Data = []\<rparr> (exHandle 0) exFlakyWorld) = None
   \<and> Data (fst (snd (Read exEnv \<lparr>Offset = 0, ReqSize = 4\<rparr> \<lparr>Data = []\<rparr> (exHandle 0) exFlakyWorld)))
       = [1, 2, 3, 4]
   \<and> Read exEnv \<lparr>Offset = 0, ReqSize = 4\<rparr> \<lparr>Data = []\<rparr> (exHandle 0) exDownWorld
       = (Some (Backend ''late''), \<lparr>Data = []\<rparr>,
          (exHandle 0)\<lparr>reader := Reader 8 False, readCalled := True, hash := None\<rparr>,
          exDownWorld\<lparr>trace :=
            [ReadFullCall (Reader 0 True) 4,
             StopBuffering, ReaderClose (Reader 0 True), ObjectOpen (Some 0),
             ReadFullCall (Reader 4 False) 4,
             StopBuffering, ReaderClose (Reader 4 False), ObjectOpen (Some 0),
             ReadFullCall (Reader 8 False) 4]\<rparr>)"
proof -
  let ?req = "\<lparr>Offset = 0, ReqSize = 4\<rparr>"
  let ?fh1 = "(exHandle 0)\<lparr>reader := Reader 4 False, readCalled := True, hash := None\<rparr>"
  let ?w1 = "exFlakyWorld\<lparr>trace :=
            [ReadFullCall (Reader 0 True) 4,
             StopBuffering, ReaderClose (Reader 0 True), ObjectOpen (Some 0),
             ReadFullCall (Reader 4 False) 4]\<rparr>"
  let ?fh2 = "(exHandle 0)\<lparr>reader := Reader 8 False, readCalled := True, hash := None\<rparr>"
  let ?w2 = "exFlakyWorld\<lparr>trace :=
            [ReadFullCall (Reader 0 True) 4,
             StopBuffering, ReaderClose (Reader 0 True), ObjectOpen (Some 0),
             ReadFullCall (Reader 4 False) 4,
             StopBuffering, ReaderClose (Reader 4 False), ObjectOpen (Some 0),
             ReadFullCall (Reader 8 False) 4]\<rparr>"
  let ?w3 = "exDownWorld\<lparr>trace :=
            [ReadFullCall (Reader 0 True) 4,
             StopBuffering, ReaderClose (Reader 0 True), ObjectOpen (Some 0),
             ReadFullCall (Reader 4 False) 4,
             StopBuffering, ReaderClose (Reader 4 False), ObjectOpen (Some 0),
             ReadFullCall (Reader 8 False) 4]\<rparr>"
  have opn: "\<not> closed (exHandle 0)" by (simp add: exHandle_def)
  have two: "failing ?req 2 (Offset ?req \<noteq> offset (exHandle 0)) False (exHandle 0) exFlakyWorld
               = Some ([Backend ''timeout'', Backend ''timeout''], ?fh1, ?w1)"
    by (simp add: numeral_2_eq_2 run_defs exFlakyWorld_def)
  have third: "attempt ?req ((2::nat) \<noteq> 0 \<or> Offset ?req \<noteq> offset (exHandle 0)) ((2::nat) \<noteq> 0) ?fh1 ?w1
               = (Done [1, 2, 3, 4] 4, ?fh2, ?w2)"
    by (simp add: run_defs exFlakyWorld_def)
  have few: "int 2 \<le> LowLevelRetries exEnv" by (simp add: exEnv_def)
  have three: "failing ?req (Suc (nat (LowLevelRetries exEnv))) (Offset ?req \<noteq> offset (exHandle 0))
                 False (exHandle 0) exDownWorld
               = Some ([Backend ''early'', Backend ''early'', Backend ''late''], ?fh2, ?w3)"
    by (simp add: exEnv_def numeral_2_eq_2 attempt_def seek_def ReadFull_def emit_def int64_def
        Let_def exHandle_def exObject_def exWorld_def exDownWorld_def)
  from Read_retries [OF opn, of ?req 2 exFlakyWorld "[Backend ''timeout'', Backend ''timeout'']"
      ?fh1 ?w1 exEnv "[1, 2, 3, 4]" 4 ?fh2 ?w2 "\<lparr>Data = []\<rparr>"] two third few
  obtain fh' w' where "Read exEnv ?req \<lparr>Data = []\<rparr> (exHandle 0) exFlakyWorld
      = (None, \<lparr>Data = [1, 2, 3, 4]\<rparr>, fh', w')" by auto
  moreover
  from Read_retries [OF opn, of ?req 0 exDownWorld "[Backend ''early'', Backend ''early'', Backend ''late'']"
      ?fh2 ?w3 exEnv _ _ _ _ "\<lparr>Data = []\<rparr>"] three
  have "Read exEnv ?req \<lparr>Data = []\<rparr> (exHandle 0) exDownWorld
       = (Some (Backend ''late''), \<lparr>Data = []\<rparr>, ?fh2, ?w3)" by simp
  ultimately show ?thesis by simp
qed

subsection \<open>The hash accumulator after a seek\<close>

lemma seek_hash: "seek off reopen fh w = (err, fh1, w1) \<Longrightarrow> hash fh1 = None"
  by (auto simp: seek_def Let_def split: if_splits option.splits sum.splits)

lemma attempt_hash:
  "attempt req doSeek doReopen fh w = (p, fh1, w1) \<Longrightarrow> hash fh = None \<Longrightarrow> hash fh1 = None"
  by (auto simp: attempt_def Let_def split: if_splits option.splits prod.splits dest: seek_hash)

lemma readLoop_hash:
  "readLoop env req doSeek doReopen retries fh w = (x, fh1, w1) \<Longrightarrow> hash fh = None
     \<Longrightarrow> hash fh1 = None"
proof (induction env req doSeek doReopen retries fh w rule: readLoop.induct)
  case (1 env req doSeek doReopen retries fh w)
  obtain p fh2 w2 where a: "attempt req doSeek doReopen fh w = (p, fh2, w2)"
    by (cases "attempt req doSeek doReopen fh w") auto
  from a "1.prems"(2) have h2: "hash fh2 = None" by (rule attempt_hash)
  show ?case
  proof (cases p)
    case ReturnEOF
    with a "1.prems"(1) h2 show ?thesis by (simp add: readLoop_ReturnEOF)
  next
    case (Done d n)
    with a "1.prems"(1) h2 show ?thesis by (simp add: readLoop_Done)
  next
    case (Failed e)
    show ?thesis
    proof (cases "retries \<ge> LowLevelRetries env")
      case True
      with a Failed "1.prems"(1) h2 show ?thesis by (simp add: readLoop_Failed)
    next
      case False
      with a Failed "1.prems"(1)
      have "readLoop env req True True (retries + 1) fh2 w2 = (x, fh1, w1)"
        by (simp add: readLoop_Failed)
      from "1.IH" [OF a [symmetric] _ _ False this h2] Failed show ?thesis by simp
    qed
  qed
qed

lemma Read_hash:
  "Read env req resp fh w = (err, resp', fh', w') \<Longrightarrow> hash fh = None \<Longrightarrow> hash fh' = None"
proof -
  assume r: "Read env req resp fh w = (err, resp', fh', w')" and h: "hash fh = None"
  obtain x fh1 w1 where loop: "readLoop env req (Offset req \<noteq> offset fh) False 0 fh w = (x, fh1, w1)"
    by (cases "readLoop env req (Offset req \<noteq> offset fh) False 0 fh w") auto
  from loop h have "hash fh1 = None" by (rule readLoop_hash)
  with r h loop show ?thesis
    by (cases x) (auto simp: Read_def Let_def split: if_splits)
qed

lemma checkHash_nil: "hash fh = None \<Longrightarrow> checkHash env fh = None"
  by (simp add: checkHash_def)

lemma perform_hash: "hash (fst s) = None \<Longrightarrow> hash (fst (perform env x s)) = None"
proof (cases s)
  case (Pair fh w)
  assume h: "hash (fst s) = None"
  show ?thesis
  proof (cases x)
    case (DoRead req resp)
    obtain err resp' fh' w' where "Read env req resp fh w = (err, resp', fh', w')"
      by (cases "Read env req resp fh w") auto
    with h Pair DoRead Read_hash show ?thesis by fastforce
  next
    case DoFlush
    with h Pair show ?thesis by (simp add: Flush_def checkHash_nil)
  next
    case DoRelease
    with h Pair show ?thesis by (simp add: Release_def close_def checkHash_nil Let_def)
  next
    case (DoSeek off reopen)
    obtain err fh' w' where "seek off reopen fh w = (err, fh', w')"
      by (cases "seek off reopen fh w") auto
    with Pair DoSeek seek_hash show ?thesis by fastforce
  qed
qed

lemma performAll_hash: "hash (fst s) = None \<Longrightarrow> hash (fst (performAll env xs s)) = None"
  by (induction xs arbitrary: s) (auto simp: perform_hash)

text \<open>
  C10: once \<^verbatim>\<open>seek\<close> has been called on a handle, whether or not it succeeded, the hash
  accumulator is nil, and it is still nil after any sequence of Reads, Flushes,
  Releases and further seeks; so \<^verbatim>\<open>checkHash\<close> returns nil from then on, Flush
  returns nil, and a Release returns nil on a closed handle and otherwise just the
  result of closing the stream.
\<close>

theorem hash_nil_after_seek:
  assumes "seek off reopen fh w = (err, fh1, w1)"
    and "performAll env ops (fh1, w1) = (fh2, w2)"
  shows "hash fh1 = None \<and> hash fh2 = None
       \<and> checkHash env fh2 = None
       \<and> Flush env fh2 w2 = (None, fh2, w2)
       \<and> fst (Release env fh2 w2)
           = (if closed fh2 then None
              else onClose w2 (trace w2 @ [DoneTransferring (Remote (object fh2)),
                                            ReaderClose (reader fh2)]))"
proof -
  from assms(1) have h1: "hash fh1 = None" by (rule seek_hash)
  with performAll_hash [of "(fh1, w1)" env ops] assms(2) have h2: "hash fh2 = None" by simp
  then have c: "checkHash env fh2 = None" by (rule checkHash_nil)
  from h2 have c': "checkHash env (fh2\<lparr>closed := True\<rparr>) = None" by (simp add: checkHash_def)
  from h1 h2 c c' show ?thesis
    by (simp add: Flush_def Release_def close_def emit_def Let_def)
qed

theorem hash_nil_after_seek_witness:
  "seek 0 False (exHandle 5) exHashWorld
     = (None, (exHandle 0)\<lparr>hash := None\<rparr>,
        exHashWorld\<lparr>trace := [StopBuffering, SeekerSeek (Reader 0 True) 0]\<rparr>)
   \<and> performAll exCorruptEnv [DoRead \<lparr>Offset = 0, ReqSize = 10\<rparr> \<lparr>Data = []\<rparr>]
        ((exHandle 0)\<lparr>hash := None\<rparr>,
         exHashWorld\<lparr>trace := [StopBuffering, SeekerSeek (Reader 0 True) 0]\<rparr>)
     = ((exHandle 10)\<lparr>readCalled := True, hash := None\<rparr>,
        exHashWorld\<lparr>trace := [StopBuffering, SeekerSeek (Reader 0 True) 0,
                                ReadFullCall (Reader 0 True) 10]\<rparr>)
   \<and> checkHash exCorruptEnv ((exHandle 10)\<lparr>readCalled := True, hash := None\<rparr>) = None
   \<and> Flush exCorruptEnv ((exHandle 10)\<lparr>readCalled := True, hash := None\<rparr>)
        (exHashWorld\<lparr>trace := [StopBuffering, SeekerSeek (Reader 0 True) 0,
                                ReadFullCall (Reader 0 True) 10]\<rparr>)
     = (None, (exHandle 10)\<lparr>readCalled := True, hash := None\<rparr>,
        exHashWorld\<lparr>trace := [StopBuffering, SeekerSeek (Reader 0 True) 0,
                                ReadFullCall (Reader 0 True) 10]\<rparr>)
   \<and> fst (Flush exCorruptEnv
        ((exHandle 10)\<lparr>readCalled := True,
                        hash := Some \<lparr>types = [1], written = [7, 7, 7, 7, 7, 7, 7, 7, 7, 7]\<rparr>\<rparr>)
        exHashWorld)
     = Some (errCorrupted 1 ''cc'' ''aa'')"
proof -
  let ?fh1 = "(exHandle 0)\<lparr>hash := None\<rparr>"
  let ?w1 = "exHashWorld\<lparr>trace := [StopBuffering, SeekerSeek (Reader 0 True) 0]\<rparr>"
  let ?fh2 = "(exHandle 10)\<lparr>readCalled := True, hash := None\<rparr>"
  let ?w2 = "exHashWorld\<lparr>trace := [StopBuffering, SeekerSeek (Reader 0 True) 0,
                                ReadFullCall (Reader 0 True) 10]\<rparr>"
  have s: "seek 0 False (exHandle 5) exHashWorld = (None, ?fh1, ?w1)"
    by (simp add: run_defs exHashWorld_def)
  have r: "performAll exCorruptEnv [DoRead \<lparr>Offset = 0, ReqSize = 10\<rparr> \<lparr>Data = []\<rparr>] (?fh1, ?w1)
             = (?fh2, ?w2)"
    by (simp add: Read_def readLoop.simps run_defs exHashWorld_def exCorruptEnv_def)
  have c: "fst (Flush exCorruptEnv
        ((exHandle 10)\<lparr>readCalled := True,
                        hash := Some \<lparr>types = [1], written = [7, 7, 7, 7, 7, 7, 7, 7, 7, 7]\<rparr>\<rparr>)
        exHashWorld)
     = Some (errCorrupted 1 ''cc'' ''aa'')"
    by (simp add: Flush_def checkHash_def Sums_def exCorruptEnv_def exEnv_def exHandle_def
        exObject_def)
  from hash_nil_after_seek [OF s r] s r c show ?thesis by simp
qed

section \<open>Properties of the file node\<close>

subsection \<open>Waiting for the object\<close>




subsection \<open>Opening a node\<close>

lemma access_modes_apart:
  "IsReadWrite fl \<Longrightarrow> \<not> IsReadOnly fl \<and> \<not> IsWriteOnly fl"
  "IsWriteOnly fl \<Longrightarrow> \<not> IsReadOnly fl"
  by (auto simp: IsReadWrite_def IsReadOnly_def IsWriteOnly_def OpenReadOnly_def
      OpenWriteOnly_def OpenReadWrite_def)

text \<open>
  C7, as the code has it: \<^verbatim>\<open>Open\<close> waits for a valid object first. For read-write
  flags without the truncate flag, once the wait has returned an object the open fails
  with the error "can't open for read and write simultaneously" and leaves the response
  as it was; when the wait itself fails (no backing object appeared) the open fails
  with the wait's error instead.
\<close>

theorem Open_read_write:
  assumes "IsReadWrite (Flags req)" and "Flags req AND OpenTruncate = 0"
  shows "(waitForValidObject f w = (Inr ob, w1)
           \<longrightarrow> Open env f req resp w = (Inl errReadWrite, resp, w1))
       \<and> (waitForValidObject f w = (Inl e, w1)
           \<longrightarrow> Open env f req resp w = (Inl e, resp, w1))"
  using assms access_modes_apart(1) [of "Flags req"]
  by (simp add: Open_def)

theorem Open_read_write_witness:
  "Open exEnv (\<lambda>t. exNode (Some exObject) 0) \<lparr>Flags = 2\<rparr> \<lparr>RespFlags = 0\<rparr> exWorld
     = (Inl errReadWrite, \<lparr>RespFlags = 0\<rparr>, exWorld)"
proof -
  have m: "IsReadWrite (Flags \<lparr>Flags = 2\<rparr>)" "Flags \<lparr>Flags = 2\<rparr> AND OpenTruncate = 0"
    by (simp_all add: IsReadWrite_def OpenAccessModeMask_def OpenReadWrite_def OpenTruncate_def)
  have wt: "waitForValidObject (\<lambda>t. exNode (Some exObject) 0) exWorld = (Inr exObject, exWorld)"
    by (simp add: waitForValidObject_def waitLoop.simps exNode_def)
  from Open_read_write [OF m, of "\<lambda>t. exNode (Some exObject) 0" exWorld exObject exWorld exEnv
      "\<lparr>RespFlags = 0\<rparr>"] wt
  show ?thesis by simp
qed

text \<open>
  C7 as stated fails on a node without a backing object and without writers: the open
  with read-write flags returns the writer-failed error of the wait, not the
  unsupported-mode error.
\<close>

theorem Open_read_write_counterexample:
  "IsReadWrite (Flags \<lparr>Flags = 2\<rparr>) \<and> Flags \<lparr>Flags = 2\<rparr> AND OpenTruncate = 0
   \<and> Open exEnv (\<lambda>t. exNode None 0) \<lparr>Flags = 2\<rparr> \<lparr>RespFlags = 0\<rparr> exWorld
     = (Inl errWriterFailed, \<lparr>RespFlags = 0\<rparr>, exWorld)
   \<and> errWriterFailed \<noteq> errReadWrite"
  by (simp add: Open_def waitForValidObject_def waitLoop.simps exNode_def
      IsReadWrite_def OpenAccessModeMask_def OpenReadWrite_def OpenTruncate_def)

text \<open>
  C8, as the code has it: for write-only flags, or read-write flags with the truncate
  flag, once the wait has returned an object \<^verbatim>\<open>Open\<close> sets \<^verbatim>\<open>OpenNonSeekable\<close> in the
  response and calls \<^verbatim>\<open>newWriteFileHandle\<close> with the node's parent directory, the node
  and a create-info of the object's remote name, returning its handle (or its error
  wrapped as "open for write"); when the wait fails, the open fails with the wait's
  error and the response is left as it was.
\<close>

theorem Open_for_write:
  assumes "IsWriteOnly (Flags req) \<or> (IsReadWrite (Flags req) \<and> Flags req AND OpenTruncate \<noteq> 0)"
  shows "(waitForValidObject f w = (Inr ob, w1)
           \<longrightarrow> Open env f req resp w =
                 ((case newWriteFileHandle env (f_d (f (now w1))) (f (now w1))
                          (newCreateInfo (dirFs (f_d (f (now w1)))) (Remote ob)) of
                     Inl e \<Rightarrow> Inl (Wrap e ''open for write'')
                   | Inr fh \<Rightarrow> Inr (WriteHandle fh)),
                  resp\<lparr>RespFlags := RespFlags resp OR OpenNonSeekable\<rparr>, w1))
       \<and> (waitForValidObject f w = (Inl e, w1)
           \<longrightarrow> Open env f req resp w = (Inl e, resp, w1))"
  using assms access_modes_apart [of "Flags req"]
  by (auto simp: Open_def Let_def split: sum.splits)

theorem Open_for_write_witness:
  "Open exEnv (\<lambda>t. exNode (Some exObject) 0) \<lparr>Flags = 1\<rparr> \<lparr>RespFlags = 0\<rparr> exWorld
     = (Inr (WriteHandle \<lparr>w_remote = ''a.txt'', w_dir = \<lparr>dirFs = ''remote:'', dirPath = ''dir''\<rparr>,
                          w_file = exNode (Some exObject) 0\<rparr>),
        \<lparr>RespFlags = 4\<rparr>, exWorld)"
proof -
  have m: "IsWriteOnly (Flags \<lparr>Flags = 1\<rparr>)
           \<or> (IsReadWrite (Flags \<lparr>Flags = 1\<rparr>) \<and> Flags \<lparr>Flags = 1\<rparr> AND OpenTruncate \<noteq> 0)"
    by (simp add: IsWriteOnly_def OpenAccessModeMask_def OpenWriteOnly_def)
  have wt: "waitForValidObject (\<lambda>t. exNode (Some exObject) 0) exWorld = (Inr exObject, exWorld)"
    by (simp add: waitForValidObject_def waitLoop.simps exNode_def)
  from Open_for_write [OF m, of "\<lambda>t. exNode (Some exObject) 0" exWorld exObject exWorld exEnv
      "\<lparr>RespFlags = 0\<rparr>"] wt
  show ?thesis by (simp add: exEnv_def exNode_def exObject_def OpenNonSeekable_def)
qed

text \<open>
  C8 as stated fails on a node without a backing object and without writers: the open
  with write-only flags returns the writer-failed error, constructs no handle and does
  not mark the response non-seekable.
\<close>

theorem Open_for_write_counterexample:
  "IsWriteOnly (Flags \<lparr>Flags = 1\<rparr>)
   \<and> Open exEnv (\<lambda>t. exNode None 0) \<lparr>Flags = 1\<rparr> \<lparr>RespFlags = 0\<rparr> exWorld
     = (Inl errWriterFailed, \<lparr>RespFlags = 0\<rparr>, exWorld)"
  by (simp add: Open_def waitForValidObject_def waitLoop.simps exNode_def
      IsWriteOnly_def OpenAccessModeMask_def OpenWriteOnly_def)

end
